theory Spec2Isabelle
  imports Complex_Main "HOL-Library.Word" "HOL-Library.Signed_Division"
begin

section \<open>ESP32-CAM live view with TFT display: data model\<close>

text \<open>
  The sketch \<^verbatim>\<open>ESP32Cam_TFTDisplay.ino\<close> is embedded as functions on an explicit
  state. The state holds the global variables of the sketch, the two sensor parameters
  that the sketch changes after start-up, and a trace of the calls made to the camera
  driver, the display and the SD card, in program order. Every value the sketch reads
  from a peripheral (\<^verbatim>\<open>millis()\<close>, the frame returned by the driver, the result of
  opening a file, the decoder's tiles) is an input of the function that reads it.

  Integer widths are those of the ESP32 (ILP32): \<^verbatim>\<open>unsigned long\<close>, \<^verbatim>\<open>uint32_t\<close> and
  \<^verbatim>\<open>int\<close> have 32 bits, \<^verbatim>\<open>uint16_t\<close> and \<^verbatim>\<open>int16_t\<close> have 16, and operands narrower
  than \<^verbatim>\<open>int\<close> are promoted to \<^verbatim>\<open>int\<close> before arithmetic and comparison.
\<close>

type_synonym pixel = "16 word"

record camera_fb =
  fb_addr :: nat
  fb_buf :: "8 word list"

datatype framesize = FRAMESIZE_QVGA | FRAMESIZE_VGA

datatype colour = TFT_WHITE | TFT_YELLOW | Color565 nat nat nat

definition uiBackgroundColor :: colour where "uiBackgroundColor = Color565 15 15 25"
definition uiBorderColor :: colour where "uiBorderColor = Color565 60 120 200"
definition uiTextColor :: colour where "uiTextColor = TFT_WHITE"
definition uiSuccessColor :: colour where "uiSuccessColor = Color565 0 200 100"
definition uiErrorColor :: colour where "uiErrorColor = Color565 255 80 80"

text \<open>
  \<^verbatim>\<open>currentFPS\<close> is a \<^verbatim>\<open>float\<close> obtained by one floating-point division. The model keeps
  the exact quotient of the two operands (and the infinity that a zero divisor gives);
  the rounding of the quotient to a \<^verbatim>\<open>float\<close> is not represented.
\<close>

datatype fps = Fps_inf | Fps rat

definition fdiv :: "nat \<Rightarrow> nat \<Rightarrow> fps" where
  "fdiv n d = (if d = 0 then Fps_inf else Fps (of_nat n / of_nat d))"

fun fps_ge :: "fps \<Rightarrow> rat \<Rightarrow> bool" where
  "fps_ge Fps_inf r = True"
| "fps_ge (Fps q) r = (r \<le> q)"

datatype tft_call =
    FillRoundRect int int int int int colour
  | DrawRoundRect int int int int int colour
  | SetTextColor colour colour
  | SetTextSize nat
  | SetCursor int int
  | Println string
  | Printf_d string int
  | Printf_f string fps
  | PushImage int int int int "nat \<Rightarrow> pixel"

datatype event =
    Tft tft_call
  | Delay nat
  | Set_framesize framesize
  | Set_quality int
  | Fb_get "camera_fb option"
  | Fb_return camera_fb
  | SD_open string bool
  | File_write "8 word list" nat
  | File_close

record sketch =
  displayBuffer :: "nat \<Rightarrow> pixel"
  bufferReady :: bool
  frameCount :: "32 word"
  fpsTimer :: "32 word"
  currentFPS :: fps
  lastFPSUpdate :: "32 word"
  showStatusBar :: bool
  statusBarTimer :: "32 word"
  captureRequested :: bool
  lastButtonPress :: "32 word"
  photoCount :: "32 word"
  sdCardAvailable :: bool
  sensor_framesize :: framesize
  sensor_quality :: int
  trace :: "event list"

definition debounceDelay :: "32 word" where "debounceDelay = 200"

definition emit :: "event \<Rightarrow> sketch \<Rightarrow> sketch" where
  "emit ev s = s\<lparr>trace := trace s @ [ev]\<rparr>"

definition emits :: "event list \<Rightarrow> sketch \<Rightarrow> sketch" where
  "emits evs s = s\<lparr>trace := trace s @ evs\<rparr>"

text \<open>
  The sensor setters \<^verbatim>\<open>s->set_framesize\<close> and \<^verbatim>\<open>s->set_quality\<close>: the sketch ignores
  their return values; the model lets them take effect and records the call.
\<close>

definition set_framesize :: "framesize \<Rightarrow> sketch \<Rightarrow> sketch" where
  "set_framesize f s = emit (Set_framesize f) (s\<lparr>sensor_framesize := f\<rparr>)"

definition set_quality :: "int \<Rightarrow> sketch \<Rightarrow> sketch" where
  "set_quality q s = emit (Set_quality q) (s\<lparr>sensor_quality := q\<rparr>)"

section \<open>The interrupt handler\<close>

text \<open>\<^verbatim>\<open>buttonPressed\<close>; its argument is the value \<^verbatim>\<open>millis()\<close> returns.\<close>

definition buttonPressed :: "32 word \<Rightarrow> sketch \<Rightarrow> sketch" where
  "buttonPressed currentTime s =
     (if currentTime - lastButtonPress s > debounceDelay
      then s\<lparr>captureRequested := True, lastButtonPress := currentTime\<rparr>
      else s)"

section \<open>Still capture\<close>

text \<open>\<^verbatim>\<open>String(unsigned long)\<close>: the decimal digits of the number.\<close>

fun String_dec :: "nat \<Rightarrow> string" where
  "String_dec n =
     (if n < 10 then [char_of (48 + n)]
      else String_dec (n div 10) @ [char_of (48 + n mod 10)])"

declare String_dec.simps [simp del]

definition checkmark :: string where
  "checkmark = [CHR 0xE2, CHR 0x9C, CHR 0x93]"

text \<open>What \<^verbatim>\<open>capturePhoto\<close> reads from the camera driver, the clock and the SD card.\<close>

record capture_env =
  sensor_get :: bool
  still_fb :: "camera_fb option"
  still_millis :: "32 word"
  sd_open :: bool
  file_written :: nat

definition no_sd_banner :: "event list" where
  "no_sd_banner =
     [Tft (FillRoundRect 50 100 220 40 8 uiErrorColor),
      Tft (SetTextColor TFT_WHITE uiErrorColor),
      Tft (SetTextSize 1),
      Tft (SetCursor 85 115),
      Tft (Println ''NO SD CARD DETECTED''),
      Delay 1500]"

definition capturing_banner :: "event list" where
  "capturing_banner =
     [Tft (FillRoundRect 80 100 160 40 8 uiBackgroundColor),
      Tft (DrawRoundRect 80 100 160 40 8 uiBorderColor),
      Tft (SetTextColor uiTextColor uiBackgroundColor),
      Tft (SetTextSize 1),
      Tft (SetCursor 125 115),
      Tft (Println ''CAPTURING...'')]"

definition saved_banner :: "32 word \<Rightarrow> event list" where
  "saved_banner n =
     [Tft (FillRoundRect 60 90 200 60 10 uiSuccessColor),
      Tft (SetTextColor TFT_WHITE uiSuccessColor),
      Tft (SetTextSize 1),
      Tft (SetCursor 85 105),
      Tft (Println ''PHOTO SAVED!''),
      Tft (SetCursor 105 120),
      Tft (Printf_d ''Image #%d'' (sint n)),
      Tft (SetTextSize 2),
      Tft (SetCursor 130 130),
      Tft (Println checkmark),
      Delay 1000]"

definition restore_sensor :: "bool \<Rightarrow> sketch \<Rightarrow> sketch" where
  "restore_sensor have_sensor s =
     (if have_sensor then set_quality 8 (set_framesize FRAMESIZE_QVGA s) else s)"

definition capturePhoto :: "capture_env \<Rightarrow> sketch \<Rightarrow> bool \<times> sketch" where
  "capturePhoto e s =
     (if \<not> sdCardAvailable s then (False, emits no_sd_banner s)
      else
        let s1 = emits capturing_banner s;
            s2 = (if sensor_get e
                  then emit (Delay 100) (set_quality 4 (set_framesize FRAMESIZE_VGA s1))
                  else s1);
            s3 = emit (Fb_get (still_fb e)) s2
        in case still_fb e of
             None \<Rightarrow> (False, restore_sensor (sensor_get e) s3)
           | Some fb \<Rightarrow>
               let s4 = s3\<lparr>photoCount := photoCount s3 + 1\<rparr>;
                   filename = ''/photos/IMG_'' @ String_dec (unat (still_millis e)) @ ''.jpg'';
                   s5 = emit (SD_open filename (sd_open e)) s4;
                   s6 = (if sd_open e
                         then emits (File_write (fb_buf fb) (file_written e) # File_close
                                       # saved_banner (photoCount s5)) s5
                         else s5);
                   s7 = emit (Fb_return fb) s6
               in (True, restore_sensor (sensor_get e) s7))"

section \<open>The live-view loop\<close>

text \<open>
  The JPEG decoder is a library. A successful \<^verbatim>\<open>JpegDec.decodeArray\<close> gives the image
  dimensions and a finite sequence of MCU tiles; each \<^verbatim>\<open>JpegDec.read()\<close> that returns
  true exposes the next tile through \<^verbatim>\<open>MCUx\<close>, \<^verbatim>\<open>MCUy\<close>, \<^verbatim>\<open>MCUWidth\<close>, \<^verbatim>\<open>MCUHeight\<close>
  (all \<^verbatim>\<open>int\<close>) and \<^verbatim>\<open>pImage\<close>, a pointer read here as the memory that follows it.
\<close>

record tile =
  MCUx :: int
  MCUy :: int
  MCUWidth :: int
  MCUHeight :: int
  pImage :: "nat \<Rightarrow> pixel"

record jpeg =
  JpegDec_width :: int
  JpegDec_height :: int
  mcus :: "tile list"

record loop_env =
  capture :: capture_env
  live_fb :: "camera_fb option"
  decodeArray :: "jpeg option"
  tft_width :: "16 word"
  tft_height :: "16 word"
  millis_elapsed :: "32 word"
  millis_reset :: "32 word"

text \<open>
  \<^verbatim>\<open>memcpy(&pBuf[off], pImg, n * 2)\<close> on 16-bit pixels: \<open>n\<close> pixels are written, at the
  indices \<open>off\<close> to \<open>off + n - 1\<close> of the destination.
\<close>

definition memcpy :: "(nat \<Rightarrow> pixel) \<Rightarrow> nat \<Rightarrow> (nat \<Rightarrow> pixel) \<Rightarrow> nat \<Rightarrow> (nat \<Rightarrow> pixel)" where
  "memcpy dst off src n = (\<lambda>i. if off \<le> i \<and> i < off + n then src (i - off) else dst i)"

text \<open>
  The state of the buffered decode: the buffer, the \<^verbatim>\<open>uint16_t bufIndex\<close>, and the
  list of \<^verbatim>\<open>memcpy\<close> calls made so far, each as (first pixel index, pixel count).
\<close>

record assembler =
  pBuf :: "nat \<Rightarrow> pixel"
  bufIndex :: "16 word"
  copies :: "(nat \<times> nat) list"

definition mcuPixels :: "tile \<Rightarrow> 16 word" where
  "mcuPixels t = word_of_int (MCUWidth t * MCUHeight t)"

definition copy_mcu :: "tile \<Rightarrow> assembler \<Rightarrow> assembler" where
  "copy_mcu t a =
     (if unat (bufIndex a) + unat (mcuPixels t) \<le> 320 * 240
      then a\<lparr>pBuf := memcpy (pBuf a) (unat (bufIndex a)) (pImage t) (unat (mcuPixels t)),
              bufIndex := bufIndex a + mcuPixels t,
              copies := copies a @ [(unat (bufIndex a), unat (mcuPixels t))]\<rparr>
      else a)"

definition buffer_decode :: "tile list \<Rightarrow> (nat \<Rightarrow> pixel) \<Rightarrow> assembler" where
  "buffer_decode ts buf = fold copy_mcu ts \<lparr>pBuf = buf, bufIndex = 0, copies = []\<rparr>"

text \<open>
  \<^verbatim>\<open>int16_t x = (tft.width() - w) / 2\<close>: \<^verbatim>\<open>tft.width()\<close> is an \<^verbatim>\<open>int16_t\<close>, \<^verbatim>\<open>w\<close> a
  \<^verbatim>\<open>uint16_t\<close>; the subtraction and the truncating division are done on \<^verbatim>\<open>int\<close>, and
  the quotient is narrowed to 16 bits.
\<close>

definition centre :: "16 word \<Rightarrow> 16 word \<Rightarrow> 16 word" where
  "centre d w = word_of_int ((sint d - uint w) sdiv 2)"

definition push_tile :: "16 word \<Rightarrow> 16 word \<Rightarrow> tile \<Rightarrow> event" where
  "push_tile x y t =
     Tft (PushImage (MCUx t * MCUWidth t + sint x) (MCUy t * MCUHeight t + sint y)
            (MCUWidth t) (MCUHeight t) (pImage t))"

definition present :: "loop_env \<Rightarrow> jpeg \<Rightarrow> sketch \<Rightarrow> sketch" where
  "present e j s =
     (let w = (word_of_int (JpegDec_width j) :: 16 word);
          h = (word_of_int (JpegDec_height j) :: 16 word);
          x = centre (tft_width e) w;
          y = centre (tft_height e) h
      in if bufferReady s
         then let s1 = s\<lparr>displayBuffer := pBuf (buffer_decode (mcus j) (displayBuffer s))\<rparr>
              in emit (Tft (PushImage (sint x) (sint y) (uint w) (uint h) (displayBuffer s1))) s1
         else emits (map (push_tile x y) (mcus j)) s)"

definition circle_full :: string where "circle_full = [CHR 0xE2, CHR 0x97, CHR 0x8F]"
definition circle_half :: string where "circle_half = [CHR 0xE2, CHR 0x97, CHR 0x90]"
definition circle_empty :: string where "circle_empty = [CHR 0xE2, CHR 0x97, CHR 0x8B]"

definition fps_badge :: "fps \<Rightarrow> event list" where
  "fps_badge f =
     [Tft (FillRoundRect 5 5 90 35 6 uiBackgroundColor),
      Tft (DrawRoundRect 5 5 90 35 6 uiBorderColor),
      Tft (DrawRoundRect 6 6 88 33 5 (Color565 40 80 120)),
      Tft (SetTextColor uiTextColor uiBackgroundColor),
      Tft (SetTextSize 1),
      Tft (SetCursor 12 12),
      Tft (Println ''FPS''),
      Tft (SetTextSize 2),
      Tft (SetCursor 12 22),
      Tft (SetTextColor (if fps_ge f 15 then uiSuccessColor
                         else if fps_ge f 10 then TFT_YELLOW
                         else uiErrorColor) uiBackgroundColor),
      Tft (Printf_f ''%.1f'' f),
      Tft (SetTextSize 1),
      Tft (SetTextColor uiTextColor uiBackgroundColor),
      Tft (SetCursor 68 28),
      Tft (Println (if fps_ge f 15 then circle_full
                    else if fps_ge f 10 then circle_half
                    else circle_empty))]"

text \<open>
  The frame-rate block of \<^verbatim>\<open>loop\<close>. Its two arguments are the values of the two calls
  of \<^verbatim>\<open>millis()\<close>, the first for \<^verbatim>\<open>elapsed\<close>, the second for the new \<^verbatim>\<open>fpsTimer\<close>.
\<close>

definition fps_update :: "32 word \<Rightarrow> 32 word \<Rightarrow> sketch \<Rightarrow> sketch" where
  "fps_update t1 t2 s =
     (let s1 = s\<lparr>frameCount := frameCount s + 1\<rparr>
      in if frameCount s1 \<ge> 30
         then let elapsed = t1 - fpsTimer s1;
                  s2 = s1\<lparr>currentFPS := fdiv (unat (frameCount s1) * 1000) (unat elapsed)\<rparr>;
                  s3 = emits (fps_badge (currentFPS s2)) s2
              in s3\<lparr>frameCount := 0, fpsTimer := t2\<rparr>
         else s1)"

definition loop :: "loop_env \<Rightarrow> sketch \<Rightarrow> sketch" where
  "loop e s =
     (let s1 = (if captureRequested s
                then snd (capturePhoto (capture e) (s\<lparr>captureRequested := False\<rparr>))
                else s);
          s2 = emit (Fb_get (live_fb e)) s1
      in case live_fb e of
           None \<Rightarrow> s2
         | Some fb \<Rightarrow>
             let s3 = (case decodeArray e of
                         None \<Rightarrow> s2
                       | Some j \<Rightarrow> fps_update (millis_elapsed e) (millis_reset e) (present e j s2))
             in emit (Fb_return fb) s3)"

section \<open>Start-up\<close>

text \<open>
  The values of the globals at their definitions; the two sensor parameters are those
  the sensor has before \<^verbatim>\<open>setup\<close> runs.
\<close>

definition power_on :: "framesize \<Rightarrow> int \<Rightarrow> sketch" where
  "power_on f q =
     \<lparr>displayBuffer = (\<lambda>_. 0), bufferReady = False, frameCount = 0, fpsTimer = 0,
      currentFPS = Fps 0, lastFPSUpdate = 0, showStatusBar = True, statusBarTimer = 0,
      captureRequested = False, lastButtonPress = 0, photoCount = 0,
      sdCardAvailable = False, sensor_framesize = f, sensor_quality = q, trace = []\<rparr>"

text \<open>
  The part of \<^verbatim>\<open>setup\<close> that fixes the live-view profile: \<^verbatim>\<open>esp_camera_init\<close> with
  \<^verbatim>\<open>frame_size = FRAMESIZE_QVGA\<close> and \<^verbatim>\<open>jpeg_quality = 8\<close> (a failed initialisation
  halts the sketch), then, when \<^verbatim>\<open>esp_camera_sensor_get()\<close> is not null,
  \<^verbatim>\<open>set_framesize(s, FRAMESIZE_QVGA)\<close> and \<^verbatim>\<open>set_quality(s, 6)\<close>. The other sensor
  setters of \<^verbatim>\<open>setup\<close> touch parameters that nothing changes afterwards.
\<close>

definition setup_camera :: "bool \<Rightarrow> sketch \<Rightarrow> sketch" where
  "setup_camera have_sensor s =
     (let s1 = s\<lparr>sensor_framesize := FRAMESIZE_QVGA, sensor_quality := 8\<rparr>
      in if have_sensor then set_quality 6 (set_framesize FRAMESIZE_QVGA s1) else s1)"

text \<open>
  What \<^verbatim>\<open>setup\<close> leaves in the state, in program order: \<^verbatim>\<open>initSDCard\<close> sets
  \<^verbatim>\<open>sdCardAvailable\<close> when \<^verbatim>\<open>SD.begin\<close> succeeds, the camera is configured,
  \<^verbatim>\<open>bufferReady\<close> is set when \<^verbatim>\<open>malloc\<close> returns a buffer, and \<^verbatim>\<open>fpsTimer\<close> is
  assigned \<^verbatim>\<open>millis()\<close>. The start-up screens, the pin configuration and the serial
  output are not part of the state and are left out.
\<close>

definition sketch_setup :: "bool \<Rightarrow> bool \<Rightarrow> bool \<Rightarrow> 32 word \<Rightarrow> sketch \<Rightarrow> sketch" where
  "sketch_setup sd_begin have_sensor malloc_ok now s =
     (let s1 = s\<lparr>sdCardAvailable := sd_begin\<rparr>;
          s2 = setup_camera have_sensor s1;
          s3 = s2\<lparr>bufferReady := malloc_ok\<rparr>
      in s3\<lparr>fpsTimer := now\<rparr>)"

section \<open>Observations on runs\<close>

subsection \<open>Trigger sequences\<close>

text \<open>
  \<^verbatim>\<open>millis()\<close> at \<open>t\<close> milliseconds after start: an \<^verbatim>\<open>unsigned long\<close>, so the count
  wraps at \<open>2 ^ 32\<close>.
\<close>

definition millis :: "nat \<Rightarrow> 32 word" where
  "millis t = of_nat t"

text \<open>
  The triggers that are accepted out of a sequence of button edges at the given times:
  the main loop has consumed any earlier request (the flag is clear when the handler
  runs), and the edge is accepted when the handler sets the flag.
\<close>

fun accepted :: "nat list \<Rightarrow> sketch \<Rightarrow> nat list" where
  "accepted [] s = []"
| "accepted (t # ts) s =
     (let s' = buttonPressed (millis t) (s\<lparr>captureRequested := False\<rparr>)
      in (if captureRequested s' then [t] else []) @ accepted ts s')"

subsection \<open>Frame buffers on loan\<close>

text \<open>
  \<open>fb_track\<close> replays the driver calls of a trace against the frame currently on loan.
  \<^verbatim>\<open>esp_camera_fb_get\<close> is in order only while no frame is on loan, and its result (a
  frame or nothing) is then the loan; \<^verbatim>\<open>esp_camera_fb_return\<close> is in order only for
  the frame on loan, and ends the loan. The result is \<open>None\<close> as soon as a call is out
  of order, and otherwise the loan at the end of the trace.
\<close>

fun fb_step :: "camera_fb option \<Rightarrow> event \<Rightarrow> camera_fb option option" where
  "fb_step held (Fb_get r) = (if held = None then Some r else None)"
| "fb_step held (Fb_return f) = (if held = Some f then Some None else None)"
| "fb_step held _ = Some held"

fun fb_track :: "event list \<Rightarrow> camera_fb option \<Rightarrow> camera_fb option option" where
  "fb_track [] held = Some held"
| "fb_track (ev # evs) held =
     (case fb_step held ev of None \<Rightarrow> None | Some h \<Rightarrow> fb_track evs h)"

subsection \<open>What reaches the display\<close>

fun is_tft :: "event \<Rightarrow> bool" where
  "is_tft (Tft _) = True"
| "is_tft _ = False"

text \<open>The frame rates printed on the badge, in order.\<close>

fun fps_samples :: "event list \<Rightarrow> fps list" where
  "fps_samples [] = []"
| "fps_samples (Tft (Printf_f fmt f) # evs) = f # fps_samples evs"
| "fps_samples (ev # evs) = fps_samples evs"

text \<open>The calls that follow the first \<^verbatim>\<open>SD.open\<close> of a trace.\<close>

fun after_open :: "event list \<Rightarrow> event list" where
  "after_open [] = []"
| "after_open (SD_open p ok # evs) = evs"
| "after_open (ev # evs) = after_open evs"

text \<open>
  The state in which \<^verbatim>\<open>loop\<close> reaches its frame-rate block, when a frame was acquired
  and decoded.
\<close>

definition pre_fps :: "loop_env \<Rightarrow> sketch \<Rightarrow> sketch" where
  "pre_fps e s = present e (the (decodeArray e))
     (emit (Fb_get (live_fb e))
        (if captureRequested s
         then snd (capturePhoto (capture e) (s\<lparr>captureRequested := False\<rparr>)) else s))"

section \<open>Example inputs\<close>

definition example_fb :: camera_fb where
  "example_fb = \<lparr>fb_addr = 1, fb_buf = [0xFF, 0xD8, 0xFF, 0xD9]\<rparr>"

definition example_capture :: capture_env where
  "example_capture = \<lparr>sensor_get = True, still_fb = Some example_fb, still_millis = 5000,
     sd_open = True, file_written = 4\<rparr>"

definition open_fails :: capture_env where
  "open_fails = example_capture\<lparr>sd_open := False\<rparr>"

definition short_write :: capture_env where
  "short_write = example_capture\<lparr>file_written := 0\<rparr>"

text \<open>
  The sketch after a start-up in which the SD card mounted, the sensor handle was not
  null and the display buffer was allocated.
\<close>

definition after_setup :: sketch where
  "after_setup = sketch_setup True True True 2500 (power_on FRAMESIZE_VGA 12)"

text \<open>The \<open>k\<close>-th 16 by 16 tile of a 320 by 240 image, every pixel of it \<open>k\<close>.\<close>

definition example_tile :: "nat \<Rightarrow> tile" where
  "example_tile k = \<lparr>MCUx = int (k mod 20), MCUy = int (k div 20), MCUWidth = 16, MCUHeight = 16,
     pImage = (\<lambda>_. of_nat k)\<rparr>"

definition qvga_mcus :: "tile list" where
  "qvga_mcus = map example_tile [0..<300]"

text \<open>A longer stream of the same tiles: 20 rows of 20, a 320 by 320 image.\<close>

definition long_mcus :: "tile list" where
  "long_mcus = map example_tile [0..<400]"

text \<open>Two tiles larger than any a JPEG decoder produces, for the guard of the copy.\<close>

definition wide_tile :: tile where
  "wide_tile = \<lparr>MCUx = 0, MCUy = 0, MCUWidth = 277, MCUHeight = 278, pImage = (\<lambda>_. 9)\<rparr>"

definition big_tile :: tile where
  "big_tile = \<lparr>MCUx = 0, MCUy = 0, MCUWidth = 255, MCUHeight = 257, pImage = (\<lambda>_. 7)\<rparr>"

definition blank :: "nat \<Rightarrow> pixel" where
  "blank = (\<lambda>_. 0xFFFF)"

definition example_loop :: loop_env where
  "example_loop = \<lparr>capture = example_capture, live_fb = Some example_fb,
     decodeArray = Some \<lparr>JpegDec_width = 32, JpegDec_height = 16, mcus = map example_tile [0, 1]\<rparr>,
     tft_width = 240, tft_height = 320, millis_elapsed = 4500, millis_reset = 4510\<rparr>"

section \<open>Properties\<close>

subsection \<open>Shared facts\<close>

lemmas sk = emit_def emits_def set_framesize_def set_quality_def restore_sensor_def

lemma after_setup_fields:
  "sdCardAvailable after_setup" "bufferReady after_setup" "photoCount after_setup = 0"
  "sensor_framesize after_setup = FRAMESIZE_QVGA" "sensor_quality after_setup = 6"
  "frameCount after_setup = 0" "fpsTimer after_setup = 2500"
  by (simp_all add: after_setup_def sketch_setup_def setup_camera_def power_on_def sk Let_def)

lemma after_setup_trace: "trace after_setup = [Set_framesize FRAMESIZE_QVGA, Set_quality 6]"
  by (simp add: after_setup_def sketch_setup_def setup_camera_def power_on_def sk)

subsection \<open>Still capture\<close>

lemma capturePhoto_frame_trace:
  assumes "sdCardAvailable s" "still_fb c = Some fb"
  shows "trace (snd (capturePhoto c s)) = trace s @ capturing_banner
      @ (if sensor_get c then [Set_framesize FRAMESIZE_VGA, Set_quality 4, Delay 100] else [])
      @ [Fb_get (Some fb),
         SD_open (''/photos/IMG_'' @ String_dec (unat (still_millis c)) @ ''.jpg'') (sd_open c)]
      @ (if sd_open c
         then File_write (fb_buf fb) (file_written c) # File_close # saved_banner (photoCount s + 1)
         else [])
      @ [Fb_return fb]
      @ (if sensor_get c then [Set_framesize FRAMESIZE_QVGA, Set_quality 8] else [])"
  using assms by (simp add: capturePhoto_def sk Let_def)

lemma capturePhoto_sensor:
  assumes "sdCardAvailable s" "sensor_get c"
  shows "sensor_framesize (snd (capturePhoto c s)) = FRAMESIZE_QVGA"
    "sensor_quality (snd (capturePhoto c s)) = 8"
  using assms by (simp_all add: capturePhoto_def sk Let_def split: option.split)

lemma String_dec_5000: "String_dec 5000 = ''5000''"
  by (simp add: String_dec.simps char_of_def bit_0)

lemma open_fails_trace:
  "trace (snd (capturePhoto open_fails after_setup)) =
     [Set_framesize FRAMESIZE_QVGA, Set_quality 6] @ capturing_banner
     @ [Set_framesize FRAMESIZE_VGA, Set_quality 4, Delay 100, Fb_get (Some example_fb),
        SD_open ''/photos/IMG_5000.jpg'' False, Fb_return example_fb,
        Set_framesize FRAMESIZE_QVGA, Set_quality 8]"
proof -
  have e: "sensor_get open_fails" "still_fb open_fails = Some example_fb" "\<not> sd_open open_fails"
    "unat (still_millis open_fails) = 5000"
    by (simp_all add: open_fails_def example_capture_def)
  show ?thesis
    by (simp add: capturePhoto_frame_trace [OF after_setup_fields(1) e(2)] e after_setup_trace
        String_dec_5000)
qed

text \<open>
  With the SD card present, the sensor handle not null and a frame acquired, a failed
  \<^verbatim>\<open>SD.open\<close> is followed by the release of the frame and the two sensor setters and
  by nothing else: no call to the display follows it, and \<^verbatim>\<open>capturePhoto\<close> returns
  true.
\<close>

theorem open_failure_not_surfaced:
  "fst (capturePhoto open_fails after_setup)
   \<and> after_open (trace (snd (capturePhoto open_fails after_setup)))
       = [Fb_return example_fb, Set_framesize FRAMESIZE_QVGA, Set_quality 8]
   \<and> filter is_tft (after_open (trace (snd (capturePhoto open_fails after_setup)))) = []"
proof -
  have r: "fst (capturePhoto open_fails after_setup)"
    by (simp add: capturePhoto_def Let_def after_setup_fields open_fails_def example_capture_def)
  have a: "after_open (trace (snd (capturePhoto open_fails after_setup)))
       = [Fb_return example_fb, Set_framesize FRAMESIZE_QVGA, Set_quality 8]"
    by (simp add: open_fails_trace capturing_banner_def)
  show ?thesis using r a by simp
qed

text \<open>
  C7. With the SD card present and a frame acquired, the calls made by
  \<^verbatim>\<open>capturePhoto\<close> are exactly these: the capturing banner; the switch to VGA and
  quality 4 when the sensor handle is not null; the acquisition; \<^verbatim>\<open>SD.open\<close>; when the
  file opened, the write, the close and the saved banner, whatever \<^verbatim>\<open>file.write\<close>
  returned; the release of the frame; and, when the sensor handle is not null,
  \<^verbatim>\<open>set_framesize(FRAMESIZE_QVGA)\<close> and \<^verbatim>\<open>set_quality(8)\<close>. A file that did not open
  adds no call at all, so the failure is not shown, and the sensor setters after the
  release are executed all the same.
\<close>

theorem capturePhoto_write_failure:
  assumes "sdCardAvailable s" "still_fb c = Some fb"
  shows "trace (snd (capturePhoto c s)) = trace s @ capturing_banner
      @ (if sensor_get c then [Set_framesize FRAMESIZE_VGA, Set_quality 4, Delay 100] else [])
      @ [Fb_get (Some fb),
         SD_open (''/photos/IMG_'' @ String_dec (unat (still_millis c)) @ ''.jpg'') (sd_open c)]
      @ (if sd_open c
         then File_write (fb_buf fb) (file_written c) # File_close # saved_banner (photoCount s + 1)
         else [])
      @ [Fb_return fb]
      @ (if sensor_get c then [Set_framesize FRAMESIZE_QVGA, Set_quality 8] else [])
    \<and> sensor_framesize (snd (capturePhoto c s))
        = (if sensor_get c then FRAMESIZE_QVGA else sensor_framesize s)
    \<and> sensor_quality (snd (capturePhoto c s)) = (if sensor_get c then 8 else sensor_quality s)"
proof (intro conjI)
  show "sensor_framesize (snd (capturePhoto c s))
        = (if sensor_get c then FRAMESIZE_QVGA else sensor_framesize s)"
    using assms by (simp add: capturePhoto_def sk Let_def)
  show "sensor_quality (snd (capturePhoto c s)) = (if sensor_get c then 8 else sensor_quality s)"
    using assms by (simp add: capturePhoto_def sk Let_def)
qed (rule capturePhoto_frame_trace [OF assms])

text \<open>
  A write that returns 0 bytes after a successful open: the saved banner is drawn and the
  sensor is set to quality 8.
\<close>

theorem capturePhoto_write_failure_witness:
  "sdCardAvailable after_setup \<and> still_fb short_write = Some example_fb
   \<and> file_written short_write = 0
   \<and> trace (snd (capturePhoto short_write after_setup)) =
       [Set_framesize FRAMESIZE_QVGA, Set_quality 6] @ capturing_banner
       @ [Set_framesize FRAMESIZE_VGA, Set_quality 4, Delay 100, Fb_get (Some example_fb),
          SD_open ''/photos/IMG_5000.jpg'' True, File_write [0xFF, 0xD8, 0xFF, 0xD9] 0, File_close]
       @ saved_banner 1
       @ [Fb_return example_fb, Set_framesize FRAMESIZE_QVGA, Set_quality 8]
   \<and> sensor_quality (snd (capturePhoto short_write after_setup)) = 8"
proof -
  have e: "sensor_get short_write" "still_fb short_write = Some example_fb" "sd_open short_write"
    "unat (still_millis short_write) = 5000" "file_written short_write = 0"
    "fb_buf example_fb = [0xFF, 0xD8, 0xFF, 0xD9]"
    by (simp_all add: short_write_def example_capture_def example_fb_def)
  note w = capturePhoto_write_failure [OF after_setup_fields(1) e(2)]
  show ?thesis
    using after_setup_fields(1)
    by (simp add: w e after_setup_trace after_setup_fields(3) String_dec_5000)
qed

text \<open>
  C1. Start-up leaves the sensor at QVGA with quality 6. A capture that succeeds (SD card
  present, sensor handle not null, frame acquired, file written) returns the frame size
  to QVGA but leaves the quality at 8, and so does a capture for which the driver
  delivers no frame.
\<close>

theorem capturePhoto_quality_not_restored:
  "sensor_framesize after_setup = FRAMESIZE_QVGA \<and> sensor_quality after_setup = 6
   \<and> fst (capturePhoto example_capture after_setup)
   \<and> sensor_framesize (snd (capturePhoto example_capture after_setup)) = FRAMESIZE_QVGA
   \<and> sensor_quality (snd (capturePhoto example_capture after_setup)) = 8
   \<and> sensor_quality (snd (capturePhoto (example_capture\<lparr>still_fb := None\<rparr>) after_setup)) = 8"
proof -
  have e: "sensor_get example_capture" "still_fb example_capture = Some example_fb"
    "sensor_get (example_capture\<lparr>still_fb := None\<rparr>)"
    by (simp_all add: example_capture_def)
  have r: "fst (capturePhoto example_capture after_setup)"
    by (simp add: capturePhoto_def Let_def after_setup_fields e)
  show ?thesis
    using r by (simp add: after_setup_fields capturePhoto_sensor [OF after_setup_fields(1) e(1)]
        capturePhoto_sensor [OF after_setup_fields(1) e(3)])
qed

text \<open>
  C8. Without an SD card, \<^verbatim>\<open>capturePhoto\<close> returns false and changes the state only by
  what it draws: the error banner with the text NO SD CARD DETECTED, followed by a delay.
  The sensor parameters and the photo counter keep their values, and the driver is not
  asked for a frame.
\<close>

theorem capturePhoto_no_sd:
  assumes "\<not> sdCardAvailable s"
  shows "capturePhoto c s = (False, s\<lparr>trace := trace s @ no_sd_banner\<rparr>)
    \<and> Tft (Println ''NO SD CARD DETECTED'') \<in> set no_sd_banner
    \<and> filter (\<lambda>ev. \<not> is_tft ev) no_sd_banner = [Delay 1500]"
  using assms by (simp add: capturePhoto_def emits_def no_sd_banner_def)

text \<open>Before start-up has mounted the card, a capture only draws the banner.\<close>

theorem capturePhoto_no_sd_witness:
  "\<not> sdCardAvailable (power_on FRAMESIZE_QVGA 6)
   \<and> fst (capturePhoto example_capture (power_on FRAMESIZE_QVGA 6)) = False
   \<and> trace (snd (capturePhoto example_capture (power_on FRAMESIZE_QVGA 6))) = no_sd_banner
   \<and> photoCount (snd (capturePhoto example_capture (power_on FRAMESIZE_QVGA 6))) = 0
   \<and> sensor_framesize (snd (capturePhoto example_capture (power_on FRAMESIZE_QVGA 6))) = FRAMESIZE_QVGA
   \<and> sensor_quality (snd (capturePhoto example_capture (power_on FRAMESIZE_QVGA 6))) = 6"
proof -
  have a: "\<not> sdCardAvailable (power_on FRAMESIZE_QVGA 6)"
    by (simp add: power_on_def)
  have "capturePhoto example_capture (power_on FRAMESIZE_QVGA 6)
      = (False, (power_on FRAMESIZE_QVGA 6)\<lparr>trace := trace (power_on FRAMESIZE_QVGA 6) @ no_sd_banner\<rparr>)"
    using capturePhoto_no_sd [OF a, of example_capture] by (rule conjunct1)
  then show ?thesis
    using a by (simp add: power_on_def)
qed

text \<open>
  C10. \<^verbatim>\<open>capturePhoto\<close> returns true exactly when the SD card is available and the
  driver delivered a frame; the outcome of opening or writing the file has no part in
  the result.
\<close>

theorem capturePhoto_result:
  "fst (capturePhoto c s) = (sdCardAvailable s \<and> still_fb c \<noteq> None)"
  by (simp add: capturePhoto_def Let_def split: option.split)

text \<open>
  The four outcomes: open failure and short write give true, a missing frame and a
  missing card give false.
\<close>

theorem capturePhoto_result_witness:
  "fst (capturePhoto open_fails after_setup) = True
   \<and> fst (capturePhoto short_write after_setup) = True
   \<and> fst (capturePhoto (example_capture\<lparr>still_fb := None\<rparr>) after_setup) = False
   \<and> fst (capturePhoto example_capture (power_on FRAMESIZE_QVGA 6)) = False"
  by (simp add: capturePhoto_result after_setup_fields open_fails_def short_write_def
      example_capture_def power_on_def)

subsection \<open>Frame buffers are returned\<close>

lemma fb_track_append:
  "fb_track (xs @ ys) h = (case fb_track xs h of None \<Rightarrow> None | Some h' \<Rightarrow> fb_track ys h')"
  by (induction xs arbitrary: h) (auto split: option.splits)

lemma fb_track_tft: "\<forall>ev \<in> set evs. is_tft ev \<Longrightarrow> fb_track evs h = Some h"
proof (induction evs)
  case Nil
  then show ?case by simp
next
  case (Cons ev evs)
  then obtain c where "ev = Tft c" by (cases ev) auto
  with Cons show ?case by simp
qed

lemma tft_banners:
  "\<forall>ev \<in> set capturing_banner. is_tft ev"
  "\<forall>ev \<in> set (fps_badge f). is_tft ev"
  by (simp_all add: capturing_banner_def fps_badge_def)

lemma fb_track_no_sd: "fb_track no_sd_banner h = Some h"
  by (simp add: no_sd_banner_def)

lemma fb_track_saved: "fb_track (saved_banner n) h = Some h"
  by (simp add: saved_banner_def)

lemma capturePhoto_trace:
  "\<exists>evs. trace (snd (capturePhoto c s)) = trace s @ evs \<and> fb_track evs None = Some None"
proof (cases "sdCardAvailable s")
  case False
  then have "trace (snd (capturePhoto c s)) = trace s @ no_sd_banner"
    by (simp add: capturePhoto_def emits_def)
  then show ?thesis using fb_track_no_sd by blast
next
  case True
  have cb: "fb_track capturing_banner None = Some None"
    by (rule fb_track_tft) (rule tft_banners)
  show ?thesis
  proof (cases "still_fb c")
    case None
    let ?evs = "capturing_banner
        @ (if sensor_get c then [Set_framesize FRAMESIZE_VGA, Set_quality 4, Delay 100] else [])
        @ [Fb_get None]
        @ (if sensor_get c then [Set_framesize FRAMESIZE_QVGA, Set_quality 8] else [])"
    have "trace (snd (capturePhoto c s)) = trace s @ ?evs"
      using True None by (simp add: capturePhoto_def sk)
    moreover have "fb_track ?evs None = Some None"
      using cb by (simp add: fb_track_append)
    ultimately show ?thesis by blast
  next
    case (Some fb)
    let ?name = "''/photos/IMG_'' @ String_dec (unat (still_millis c)) @ ''.jpg''"
    let ?evs = "capturing_banner
        @ (if sensor_get c then [Set_framesize FRAMESIZE_VGA, Set_quality 4, Delay 100] else [])
        @ [Fb_get (Some fb), SD_open ?name (sd_open c)]
        @ (if sd_open c then File_write (fb_buf fb) (file_written c) # File_close
                              # saved_banner (photoCount s + 1) else [])
        @ [Fb_return fb]
        @ (if sensor_get c then [Set_framesize FRAMESIZE_QVGA, Set_quality 8] else [])"
    have "trace (snd (capturePhoto c s)) = trace s @ ?evs"
      using True Some by (simp add: capturePhoto_def sk Let_def)
    moreover have "fb_track ?evs None = Some None"
      using cb by (simp add: fb_track_append fb_track_saved)
    ultimately show ?thesis by blast
  qed
qed

lemma present_trace:
  "\<exists>evs. trace (present e j s) = trace s @ evs \<and> (\<forall>ev \<in> set evs. is_tft ev)"
  by (simp add: present_def Let_def sk push_tile_def)

lemma fps_update_trace:
  "\<exists>evs. trace (fps_update t1 t2 s) = trace s @ evs \<and> (\<forall>ev \<in> set evs. is_tft ev)"
  by (simp add: fps_update_def Let_def sk tft_banners)

lemma loop_fb:
  assumes "fb_track (trace s) None = Some None"
  shows "fb_track (trace (loop e s)) None = Some None"
proof -
  let ?s1 = "if captureRequested s
             then snd (capturePhoto (capture e) (s\<lparr>captureRequested := False\<rparr>)) else s"
  have s1: "fb_track (trace ?s1) None = Some None"
  proof (cases "captureRequested s")
    case True
    obtain evs where "trace (snd (capturePhoto (capture e) (s\<lparr>captureRequested := False\<rparr>)))
        = trace s @ evs" and "fb_track evs None = Some None"
      using capturePhoto_trace [of "capture e" "s\<lparr>captureRequested := False\<rparr>"] by auto
    with True assms show ?thesis by (simp add: fb_track_append)
  next
    case False
    with assms show ?thesis by simp
  qed
  show ?thesis
  proof (cases "live_fb e")
    case None
    then have "trace (loop e s) = trace ?s1 @ [Fb_get None]"
      by (simp add: loop_def Let_def emit_def)
    with s1 show ?thesis by (simp add: fb_track_append)
  next
    case (Some fb)
    let ?s2 = "emit (Fb_get (Some fb)) ?s1"
    show ?thesis
    proof (cases "decodeArray e")
      case None
      with Some have "trace (loop e s) = trace ?s1 @ [Fb_get (Some fb), Fb_return fb]"
        by (simp add: loop_def Let_def emit_def)
      with s1 show ?thesis by (simp add: fb_track_append)
    next
      case (Some j)
      obtain ps where ps: "trace (present e j ?s2) = trace ?s2 @ ps" "\<forall>ev \<in> set ps. is_tft ev"
        using present_trace by blast
      obtain fs where fs: "trace (fps_update (millis_elapsed e) (millis_reset e) (present e j ?s2))
          = trace (present e j ?s2) @ fs" "\<forall>ev \<in> set fs. is_tft ev"
        using fps_update_trace by blast
      have "trace (loop e s) = trace ?s1 @ [Fb_get (Some fb)] @ ps @ fs @ [Fb_return fb]"
        using \<open>live_fb e = Some fb\<close> Some ps(1) fs(1)
        by (simp add: loop_def Let_def emit_def)
      with s1 ps(2) fs(2) show ?thesis
        by (simp add: fb_track_append fb_track_tft)
    qed
  qed
qed

lemma run_fb:
  "fb_track (trace s) None = Some None \<Longrightarrow> fb_track (trace (fold loop es s)) None = Some None"
  by (induction es arbitrary: s) (simp_all add: loop_fb)


text \<open>
  C4. Starting from a trace in which no frame is on loan, \<^verbatim>\<open>capturePhoto\<close> and any
  number of iterations of \<^verbatim>\<open>loop\<close> (with or without a capture request, whether or not
  the decoder accepts the frame) make their driver calls in order: a frame is asked for
  only while none is on loan, the frame returned is the one on loan, and no frame is on
  loan at the end. Every frame acquired is thus returned once, before the next
  acquisition.
\<close>

theorem frame_returned_once:
  assumes "fb_track (trace s) None = Some None"
  shows "fb_track (trace (snd (capturePhoto c s))) None = Some None
    \<and> fb_track (trace (fold loop es s)) None = Some None"
proof
  obtain evs where "trace (snd (capturePhoto c s)) = trace s @ evs" "fb_track evs None = Some None"
    using capturePhoto_trace by blast
  with assms show "fb_track (trace (snd (capturePhoto c s))) None = Some None"
    by (simp add: fb_track_append)
  show "fb_track (trace (fold loop es s)) None = Some None"
    using assms by (rule run_fb)
qed

text \<open>
  Two iterations after start-up, the first with a capture request, the second with a
  frame that does not decode.
\<close>

theorem frame_returned_once_witness:
  "fb_track (trace after_setup) None = Some None
   \<and> fb_track (trace (snd (capturePhoto example_capture after_setup))) None = Some None
   \<and> fb_track (trace (fold loop [example_loop, example_loop\<lparr>decodeArray := None\<rparr>]
        (after_setup\<lparr>captureRequested := True\<rparr>))) None = Some None"
proof -
  have a: "fb_track (trace after_setup) None = Some None"
    by (simp add: after_setup_trace)
  have b: "fb_track (trace (after_setup\<lparr>captureRequested := True\<rparr>)) None = Some None"
    by (simp add: after_setup_trace)
  from frame_returned_once [OF a, of example_capture "[]"]
       frame_returned_once [OF b, of example_capture "[example_loop, example_loop\<lparr>decodeArray := None\<rparr>]"]
       a
  show ?thesis by simp
qed

subsection \<open>Debounce\<close>

lemma millis_gap:
  assumes "t0 \<le> t" "t - t0 \<le> 200"
  shows "\<not> millis t - millis t0 > debounceDelay"
proof -
  have "millis t - millis t0 = (of_nat (t - t0) :: 32 word)"
    using assms(1) by (simp add: millis_def)
  moreover have "unat (of_nat (t - t0) :: 32 word) = t - t0"
    using assms(2) by (simp add: unat_of_nat)
  ultimately have "unat (millis t - millis t0) \<le> 200"
    using assms(2) by simp
  then show ?thesis
    by (simp add: debounceDelay_def word_less_nat_alt)
qed

lemma accepted_after:
  "sorted (t0 # ts) \<Longrightarrow> lastButtonPress s = millis t0 \<Longrightarrow> \<forall>t \<in> set (accepted ts s). t0 + 200 < t"
proof (induction ts arbitrary: s t0)
  case Nil
  then show ?case by simp
next
  case (Cons t ts)
  let ?s' = "buttonPressed (millis t) (s\<lparr>captureRequested := False\<rparr>)"
  have le: "t0 \<le> t" using Cons.prems(1) by simp
  show ?case
  proof (cases "millis t - millis t0 > debounceDelay")
    case True
    then have gap: "t0 + 200 < t" using millis_gap [OF le] by fastforce
    have last: "lastButtonPress ?s' = millis t"
      using True Cons.prems(2) by (simp add: buttonPressed_def)
    have "sorted (t # ts)" using Cons.prems(1) by simp
    from Cons.IH [OF this last] gap show ?thesis
      by (auto simp: Let_def)
  next
    case False
    then have same: "?s' = s\<lparr>captureRequested := False\<rparr>"
      using Cons.prems(2) by (simp add: buttonPressed_def)
    have "sorted (t0 # ts)" using Cons.prems(1) by auto
    from Cons.IH [OF this, of ?s'] same Cons.prems(2) show ?thesis
      by (auto simp: Let_def)
  qed
qed

lemma accepted_spaced:
  "sorted ts \<Longrightarrow> sorted_wrt (\<lambda>x y. x + 200 < y) (accepted ts s)"
proof (induction ts arbitrary: s)
  case Nil
  then show ?case by simp
next
  case (Cons t ts)
  let ?s' = "buttonPressed (millis t) (s\<lparr>captureRequested := False\<rparr>)"
  have tail: "sorted_wrt (\<lambda>x y. x + 200 < y) (accepted ts ?s')"
    using Cons by simp
  show ?case
  proof (cases "captureRequested ?s'")
    case True
    then have "lastButtonPress ?s' = millis t"
      by (simp add: buttonPressed_def split: if_splits)
    from accepted_after [OF Cons.prems this] tail True show ?thesis
      by (simp add: Let_def)
  next
    case False
    with tail show ?thesis by (simp add: Let_def)
  qed
qed

lemma spaced_window:
  "sorted_wrt (\<lambda>x y. x + 200 < y) xs \<Longrightarrow> length (filter (\<lambda>t. a \<le> t \<and> t \<le> a + 200) xs) \<le> 1"
  for a :: nat
proof (induction xs)
  case Nil
  then show ?case by simp
next
  case (Cons x xs)
  show ?case
  proof (cases "a \<le> x \<and> x \<le> a + 200")
    case True
    have "\<forall>y \<in> set xs. \<not> (a \<le> y \<and> y \<le> a + 200)"
      using Cons.prems True by auto
    then have "filter (\<lambda>t. a \<le> t \<and> t \<le> a + 200) xs = []"
      by (simp add: filter_empty_conv)
    with True show ?thesis by simp
  next
    case False
    with Cons show ?thesis by auto
  qed
qed

lemma buttonPressed_cases:
  "buttonPressed now s =
     (if now - lastButtonPress s > 200
      then s\<lparr>captureRequested := True, lastButtonPress := now\<rparr> else s)"
  by (simp add: buttonPressed_def debounceDelay_def)

lemma buttonPressed_frame:
  "buttonPressed now s = s\<lparr>captureRequested := captureRequested (buttonPressed now s),
                             lastButtonPress := lastButtonPress (buttonPressed now s)\<rparr>"
  by (simp add: buttonPressed_def)


text \<open>
  C5. The handler sets the pending flag and stores the new timestamp when the wrapped
  difference between \<^verbatim>\<open>millis()\<close> and the last accepted timestamp exceeds 200, and
  otherwise leaves the whole state as it is; a trigger no more than 200 ms after the last
  accepted one is therefore ignored. For triggers at non-decreasing times, any window
  of 200 ms (both ends included) holds at most one accepted trigger. The handler changes
  no field of the state other than the flag and the timestamp.
\<close>

theorem buttonPressed_debounce:
  assumes "sorted ts"
  shows "length (filter (\<lambda>t. a \<le> t \<and> t \<le> a + 200) (accepted ts s)) \<le> 1
    \<and> (t0 \<le> t \<and> t - t0 \<le> 200 \<and> lastButtonPress s = millis t0 \<longrightarrow> buttonPressed (millis t) s = s)
    \<and> buttonPressed now s =
         (if now - lastButtonPress s > 200
          then s\<lparr>captureRequested := True, lastButtonPress := now\<rparr> else s)
    \<and> buttonPressed now s = s\<lparr>captureRequested := captureRequested (buttonPressed now s),
                                 lastButtonPress := lastButtonPress (buttonPressed now s)\<rparr>"
proof (intro conjI)
  show "length (filter (\<lambda>t. a \<le> t \<and> t \<le> a + 200) (accepted ts s)) \<le> 1"
    using accepted_spaced [OF assms] by (rule spaced_window)
  show "t0 \<le> t \<and> t - t0 \<le> 200 \<and> lastButtonPress s = millis t0 \<longrightarrow> buttonPressed (millis t) s = s"
    using millis_gap [of t0 t] by (auto simp: buttonPressed_def)
  show "buttonPressed now s =
         (if now - lastButtonPress s > 200
          then s\<lparr>captureRequested := True, lastButtonPress := now\<rparr> else s)"
    by (rule buttonPressed_cases)
  show "buttonPressed now s = s\<lparr>captureRequested := captureRequested (buttonPressed now s),
                                 lastButtonPress := lastButtonPress (buttonPressed now s)\<rparr>"
    by (rule buttonPressed_frame)
qed

text \<open>Five edges, of which the second and the fourth are accepted.\<close>

lemma accepted_example:
  "accepted [100, 250, 300, 460, 500] (power_on FRAMESIZE_VGA 12) = [250, 460]"
  by code_simp

theorem buttonPressed_debounce_witness:
  "sorted [100, 250, 300, 460, 500::nat]
   \<and> accepted [100, 250, 300, 460, 500] (power_on FRAMESIZE_VGA 12) = [250, 460]
   \<and> length (filter (\<lambda>t. 250 \<le> t \<and> t \<le> 250 + 200)
        (accepted [100, 250, 300, 460, 500] (power_on FRAMESIZE_VGA 12))) \<le> 1"
proof -
  have a: "sorted [100, 250, 300, 460, 500::nat]" by simp
  from buttonPressed_debounce [OF a, of 250 "power_on FRAMESIZE_VGA 12"]
  have "length (filter (\<lambda>t. 250 \<le> t \<and> t \<le> 250 + 200)
        (accepted [100, 250, 300, 460, 500] (power_on FRAMESIZE_VGA 12))) \<le> 1"
    by (rule conjunct1)
  with a accepted_example show ?thesis by blast
qed

subsection \<open>Frame-rate windows\<close>

lemma fps_samples_append: "fps_samples (xs @ ys) = fps_samples xs @ fps_samples ys"
  by (induction xs rule: fps_samples.induct) simp_all

lemma capturePhoto_fps:
  "frameCount (snd (capturePhoto c s)) = frameCount s"
  "fpsTimer (snd (capturePhoto c s)) = fpsTimer s"
  "currentFPS (snd (capturePhoto c s)) = currentFPS s"
  by (simp_all add: capturePhoto_def Let_def sk split: option.split)

lemma capturePhoto_samples:
  "fps_samples (trace (snd (capturePhoto c s))) = fps_samples (trace s)"
  by (simp add: capturePhoto_def Let_def sk fps_samples_append no_sd_banner_def
      capturing_banner_def saved_banner_def split: option.split)

lemma present_fps:
  "frameCount (present e j s) = frameCount s"
  "fpsTimer (present e j s) = fpsTimer s"
  "currentFPS (present e j s) = currentFPS s"
  by (simp_all add: present_def Let_def sk)

lemma fps_samples_push: "fps_samples (map (push_tile x y) ts) = []"
  by (induction ts) (simp_all add: push_tile_def)

lemma present_samples: "fps_samples (trace (present e j s)) = fps_samples (trace s)"
  by (simp add: present_def Let_def sk fps_samples_append fps_samples_push)

lemma fps_samples_badge: "fps_samples (fps_badge f) = [f]"
  by (simp add: fps_badge_def)

lemma count_step:
  fixes n :: "32 word"
  assumes "n < 30"
  shows "(30 \<le> n + 1) = (n + 1 = 30)" and "n + 1 \<noteq> 30 \<Longrightarrow> n + 1 < 30"
  using assms by unat_arith+


lemma fps_update_cases:
  assumes "frameCount s < 30"
  shows "frameCount s + 1 \<noteq> 30 \<Longrightarrow> fps_update t1 t2 s = s\<lparr>frameCount := frameCount s + 1\<rparr>"
    and "frameCount s + 1 = 30 \<Longrightarrow> fps_update t1 t2 s =
           s\<lparr>frameCount := 0, fpsTimer := t2,
             currentFPS := fdiv (30 * 1000) (unat (t1 - fpsTimer s)),
             trace := trace s @ fps_badge (fdiv (30 * 1000) (unat (t1 - fpsTimer s)))\<rparr>"
  using count_step(1) [OF assms] by (simp_all add: fps_update_def Let_def emits_def)

lemma loop_skip:
  assumes "live_fb e = None \<or> decodeArray e = None"
  shows "frameCount (loop e s) = frameCount s" "fpsTimer (loop e s) = fpsTimer s"
    "currentFPS (loop e s) = currentFPS s"
    "fps_samples (trace (loop e s)) = fps_samples (trace s)"
  using assms
  by (auto simp: loop_def Let_def emit_def capturePhoto_fps capturePhoto_samples
      fps_samples_append split: option.splits)

lemma loop_shown:
  assumes "live_fb e = Some fb" "decodeArray e = Some j"
  shows "loop e s = emit (Fb_return fb) (fps_update (millis_elapsed e) (millis_reset e) (pre_fps e s))"
  using assms by (simp add: loop_def Let_def pre_fps_def)

lemma pre_fps_fields:
  "frameCount (pre_fps e s) = frameCount s" "fpsTimer (pre_fps e s) = fpsTimer s"
  "currentFPS (pre_fps e s) = currentFPS s"
  "fps_samples (trace (pre_fps e s)) = fps_samples (trace s)"
  by (simp_all add: pre_fps_def present_fps present_samples emit_def capturePhoto_fps
      capturePhoto_samples fps_samples_append)

lemma loop_count:
  assumes "live_fb e \<noteq> None" "decodeArray e \<noteq> None" "frameCount s < 30" "frameCount s + 1 \<noteq> 30"
  shows "frameCount (loop e s) = frameCount s + 1" "fpsTimer (loop e s) = fpsTimer s"
    "currentFPS (loop e s) = currentFPS s"
    "fps_samples (trace (loop e s)) = fps_samples (trace s)"
proof -
  obtain fb j where fj: "live_fb e = Some fb" "decodeArray e = Some j"
    using assms(1,2) by auto
  have c: "frameCount (pre_fps e s) < 30" "frameCount (pre_fps e s) + 1 \<noteq> 30"
    using assms(3,4) by (simp_all add: pre_fps_fields)
  have eq: "loop e s = emit (Fb_return fb) ((pre_fps e s)\<lparr>frameCount := frameCount (pre_fps e s) + 1\<rparr>)"
    by (simp add: loop_shown [OF fj] fps_update_cases(1) [OF c])
  show "frameCount (loop e s) = frameCount s + 1" "fpsTimer (loop e s) = fpsTimer s"
    "currentFPS (loop e s) = currentFPS s"
    "fps_samples (trace (loop e s)) = fps_samples (trace s)"
    by (simp_all add: eq emit_def pre_fps_fields fps_samples_append)
qed

lemma loop_sample:
  assumes "live_fb e \<noteq> None" "decodeArray e \<noteq> None" "frameCount s < 30" "frameCount s + 1 = 30"
  shows "frameCount (loop e s) = 0" "fpsTimer (loop e s) = millis_reset e"
    "currentFPS (loop e s) = fdiv (30 * 1000) (unat (millis_elapsed e - fpsTimer s))"
    "fps_samples (trace (loop e s)) = fps_samples (trace s)
        @ [fdiv (30 * 1000) (unat (millis_elapsed e - fpsTimer s))]"
proof -
  obtain fb j where fj: "live_fb e = Some fb" "decodeArray e = Some j"
    using assms(1,2) by auto
  have c: "frameCount (pre_fps e s) < 30" "frameCount (pre_fps e s) + 1 = 30"
    using assms(3,4) by (simp_all add: pre_fps_fields)
  note eq = loop_shown [OF fj, of s, unfolded fps_update_cases(2) [OF c]]
  show "frameCount (loop e s) = 0" "fpsTimer (loop e s) = millis_reset e"
    "currentFPS (loop e s) = fdiv (30 * 1000) (unat (millis_elapsed e - fpsTimer s))"
    "fps_samples (trace (loop e s)) = fps_samples (trace s)
        @ [fdiv (30 * 1000) (unat (millis_elapsed e - fpsTimer s))]"
    by (simp_all add: eq emit_def pre_fps_fields fps_samples_append fps_samples_badge)
qed

lemma loop_below_30:
  assumes "frameCount s < 30"
  shows "frameCount (loop e s) < 30"
proof (cases "live_fb e = None \<or> decodeArray e = None")
  case True
  then show ?thesis using assms by (simp add: loop_skip)
next
  case False
  then have d: "live_fb e \<noteq> None" "decodeArray e \<noteq> None" by auto
  show ?thesis
  proof (cases "frameCount s + 1 = 30")
    case True
    then show ?thesis by (simp add: loop_sample(1) [OF d assms])
  next
    case False
    then show ?thesis using count_step(2) [OF assms] by (simp add: loop_count(1) [OF d assms])
  qed
qed

lemma run_below_30: "frameCount s < 30 \<Longrightarrow> frameCount (fold loop es s) < 30"
  by (induction es arbitrary: s) (simp_all add: loop_below_30)

text \<open>
  C6. While the frame counter is below 30 at the start of an iteration, which start-up
  establishes and every iteration maintains: an iteration that acquires no frame or
  fails to decode it leaves the counter, the window start, the stored rate and the
  printed samples as they are; an iteration that decodes and displays a frame counts it;
  when that makes the counter 30, the rate \<open>(30 * 1000) / elapsed\<close> is stored and
  printed, with \<open>elapsed\<close> the wrapped difference between \<^verbatim>\<open>millis()\<close> and the window
  start, the counter returns to 0 and the window start becomes the next reading of
  \<^verbatim>\<open>millis()\<close>; below 30 nothing is stored or printed. The rate is the exact quotient
  (or infinity for a zero divisor); its rounding to a \<^verbatim>\<open>float\<close> is not represented.
\<close>

theorem fps_window:
  assumes "frameCount s < 30"
  shows "frameCount (fold loop es s) < 30
    \<and> (live_fb e = None \<or> decodeArray e = None \<longrightarrow>
         frameCount (loop e s) = frameCount s \<and> fpsTimer (loop e s) = fpsTimer s
         \<and> currentFPS (loop e s) = currentFPS s
         \<and> fps_samples (trace (loop e s)) = fps_samples (trace s))
    \<and> (live_fb e \<noteq> None \<and> decodeArray e \<noteq> None \<and> frameCount s + 1 \<noteq> 30 \<longrightarrow>
         frameCount (loop e s) = frameCount s + 1 \<and> fpsTimer (loop e s) = fpsTimer s
         \<and> currentFPS (loop e s) = currentFPS s
         \<and> fps_samples (trace (loop e s)) = fps_samples (trace s))
    \<and> (live_fb e \<noteq> None \<and> decodeArray e \<noteq> None \<and> frameCount s + 1 = 30 \<longrightarrow>
         frameCount (loop e s) = 0 \<and> fpsTimer (loop e s) = millis_reset e
         \<and> currentFPS (loop e s) = fdiv (30 * 1000) (unat (millis_elapsed e - fpsTimer s))
         \<and> fps_samples (trace (loop e s)) = fps_samples (trace s)
              @ [fdiv (30 * 1000) (unat (millis_elapsed e - fpsTimer s))])"
proof (intro conjI impI)
  show "frameCount (fold loop es s) < 30"
    using assms by (rule run_below_30)
next
  assume "live_fb e = None \<or> decodeArray e = None"
  then show "frameCount (loop e s) = frameCount s" "fpsTimer (loop e s) = fpsTimer s"
    "currentFPS (loop e s) = currentFPS s"
    "fps_samples (trace (loop e s)) = fps_samples (trace s)"
    by (rule loop_skip)+
next
  assume "live_fb e \<noteq> None \<and> decodeArray e \<noteq> None \<and> frameCount s + 1 \<noteq> 30"
  then have d: "live_fb e \<noteq> None" "decodeArray e \<noteq> None" "frameCount s + 1 \<noteq> 30"
    by simp_all
  show "frameCount (loop e s) = frameCount s + 1" "fpsTimer (loop e s) = fpsTimer s"
    "currentFPS (loop e s) = currentFPS s"
    "fps_samples (trace (loop e s)) = fps_samples (trace s)"
    by (rule loop_count [OF d(1,2) assms d(3)])+
next
  assume "live_fb e \<noteq> None \<and> decodeArray e \<noteq> None \<and> frameCount s + 1 = 30"
  then have d: "live_fb e \<noteq> None" "decodeArray e \<noteq> None" "frameCount s + 1 = 30"
    by simp_all
  show "frameCount (loop e s) = 0" "fpsTimer (loop e s) = millis_reset e"
    "currentFPS (loop e s) = fdiv (30 * 1000) (unat (millis_elapsed e - fpsTimer s))"
    "fps_samples (trace (loop e s)) = fps_samples (trace s)
        @ [fdiv (30 * 1000) (unat (millis_elapsed e - fpsTimer s))]"
    by (rule loop_sample [OF d(1,2) assms d(3)])+
qed

text \<open>The thirtieth frame of a window of 2000 ms gives the sample 15.\<close>

theorem fps_window_witness:
  "frameCount (after_setup\<lparr>frameCount := 29\<rparr>) < 30
   \<and> fpsTimer (after_setup\<lparr>frameCount := 29\<rparr>) = 2500
   \<and> frameCount (loop example_loop (after_setup\<lparr>frameCount := 29\<rparr>)) = 0
   \<and> fpsTimer (loop example_loop (after_setup\<lparr>frameCount := 29\<rparr>)) = 4510
   \<and> currentFPS (loop example_loop (after_setup\<lparr>frameCount := 29\<rparr>)) = Fps 15
   \<and> fps_samples (trace (loop example_loop (after_setup\<lparr>frameCount := 29\<rparr>))) = [Fps 15]"
proof -
  let ?s = "after_setup\<lparr>frameCount := 29\<rparr>"
  have a: "frameCount ?s < 30" by simp
  have t: "fpsTimer ?s = 2500"
    by (simp add: after_setup_def sketch_setup_def Let_def)
  have m: "millis_elapsed example_loop = 4500" "millis_reset example_loop = 4510"
    by (simp_all add: example_loop_def)
  have d: "fdiv (30 * 1000) (unat (millis_elapsed example_loop - fpsTimer ?s)) = Fps 15"
    unfolding m t by (simp add: fdiv_def)
  have tr: "fps_samples (trace ?s) = []"
    by (simp add: after_setup_trace)
  have h: "live_fb example_loop \<noteq> None \<and> decodeArray example_loop \<noteq> None \<and> frameCount ?s + 1 = 30"
    by (simp add: example_loop_def)
  from fps_window [OF a, of "[]" example_loop] h
  have "frameCount (loop example_loop ?s) = 0 \<and> fpsTimer (loop example_loop ?s) = millis_reset example_loop
         \<and> currentFPS (loop example_loop ?s)
            = fdiv (30 * 1000) (unat (millis_elapsed example_loop - fpsTimer ?s))
         \<and> fps_samples (trace (loop example_loop ?s)) = fps_samples (trace ?s)
              @ [fdiv (30 * 1000) (unat (millis_elapsed example_loop - fpsTimer ?s))]"
    by blast
  then show ?thesis
    unfolding d tr m(2) using a t by simp
qed

subsection \<open>The display buffer\<close>

lemma copy_mcu_256:
  assumes "mcuPixels t = 256"
  shows "copy_mcu t a = a\<lparr>pBuf := memcpy (pBuf a) (unat (bufIndex a)) (pImage t) 256,
           bufIndex := bufIndex a + 256, copies := copies a @ [(unat (bufIndex a), 256)]\<rparr>"
proof -
  have "unat (bufIndex a) < (2 :: nat) ^ 16"
    using unsigned_less [of "bufIndex a"] by (simp del: unsigned_less)
  then show ?thesis by (simp add: copy_mcu_def assms)
qed

lemma fold_copy_256:
  "\<forall>t \<in> set ts. mcuPixels t = 256 \<Longrightarrow>
     bufIndex (fold copy_mcu ts a) = bufIndex a + 256 * of_nat (length ts)
     \<and> copies (fold copy_mcu ts a)
         = copies a @ map (\<lambda>k. (unat (bufIndex a + 256 * of_nat k), 256)) [0..<length ts]"
proof (induction ts rule: rev_induct)
  case Nil
  then show ?case by simp
next
  case (snoc t ts)
  then have t: "mcuPixels t = 256" and ih:
      "bufIndex (fold copy_mcu ts a) = bufIndex a + 256 * of_nat (length ts)"
      "copies (fold copy_mcu ts a)
         = copies a @ map (\<lambda>k. (unat (bufIndex a + 256 * of_nat k), 256)) [0..<length ts]"
    by simp_all
  show ?case
    by (simp add: copy_mcu_256 [OF t] ih algebra_simps)
qed

lemma mcuPixels_example: "mcuPixels (example_tile k) = 256"
  by (simp add: mcuPixels_def example_tile_def)

lemma qvga_copies:
  "copies (buffer_decode qvga_mcus buf) = map (\<lambda>k. (unat (256 * of_nat k :: 16 word), 256)) [0..<300]"
  "bufIndex (buffer_decode qvga_mcus buf) = 256 * of_nat 300"
proof -
  have "\<forall>t \<in> set qvga_mcus. mcuPixels t = 256"
    by (auto simp: qvga_mcus_def mcuPixels_example)
  from fold_copy_256 [OF this, of "\<lparr>pBuf = buf, bufIndex = 0, copies = []\<rparr>"]
  show "copies (buffer_decode qvga_mcus buf) = map (\<lambda>k. (unat (256 * of_nat k :: 16 word), 256)) [0..<300]"
    "bufIndex (buffer_decode qvga_mcus buf) = 256 * of_nat 300"
    by (simp_all add: buffer_decode_def qvga_mcus_def)
qed

text \<open>
  C2. A 320 by 240 image of 300 tiles of 16 by 16 pixels: the first 256 tiles hold 65536
  pixels, yet the tile after them is copied to index 0 of the buffer, since the 16-bit
  \<^verbatim>\<open>bufIndex\<close> has wrapped; after all 76800 pixels the index is 11264.
\<close>

theorem bufIndex_wraps_at_65536:
  "length qvga_mcus = 300
   \<and> sum_list (map (\<lambda>t. nat (MCUWidth t * MCUHeight t)) qvga_mcus) = 320 * 240
   \<and> sum_list (map (\<lambda>t. nat (MCUWidth t * MCUHeight t)) (take 256 qvga_mcus)) = 65536
   \<and> copies (buffer_decode qvga_mcus blank) ! 255 = (65280, 256)
   \<and> copies (buffer_decode qvga_mcus blank) ! 256 = (0, 256)
   \<and> unat (bufIndex (buffer_decode qvga_mcus blank)) = 11264"
proof -
  have px: "(\<lambda>t. nat (MCUWidth t * MCUHeight t)) \<circ> example_tile = (\<lambda>_. 256)"
    by (auto simp: example_tile_def)
  have s1: "sum_list (map (\<lambda>t. nat (MCUWidth t * MCUHeight t)) qvga_mcus) = 320 * 240"
    by (simp add: qvga_mcus_def px sum_list_triv del: upt_Suc)
  have s2: "sum_list (map (\<lambda>t. nat (MCUWidth t * MCUHeight t)) (take 256 qvga_mcus)) = 65536"
    by (simp add: qvga_mcus_def take_map px sum_list_triv del: upt_Suc)
  have c1: "copies (buffer_decode qvga_mcus blank) ! 255 = (65280, 256)"
    by (simp add: qvga_copies del: upt_Suc)
  have c2: "copies (buffer_decode qvga_mcus blank) ! 256 = (0, 256)"
    by (simp add: qvga_copies del: upt_Suc)
  have b: "unat (bufIndex (buffer_decode qvga_mcus blank)) = 11264"
    by (simp add: qvga_copies)
  show ?thesis using s1 s2 c1 c2 b by (simp add: qvga_mcus_def)
qed

lemma copies_in_bounds:
  "\<forall>(off, n) \<in> set (copies a). off + n \<le> 320 * 240 \<Longrightarrow>
   \<forall>(off, n) \<in> set (copies (fold copy_mcu ts a)). off + n \<le> 320 * 240"
proof (induction ts arbitrary: a)
  case Nil
  then show ?case by simp
next
  case (Cons t ts)
  have "\<forall>(off, n) \<in> set (copies (copy_mcu t a)). off + n \<le> 320 * 240"
    using Cons.prems by (auto simp: copy_mcu_def)
  from Cons.IH [OF this] show ?case by simp
qed

lemma beyond_capacity_untouched:
  "320 * 240 \<le> i \<Longrightarrow> pBuf (fold copy_mcu ts a) i = pBuf a i"
proof (induction ts arbitrary: a)
  case Nil
  then show ?case by simp
next
  case (Cons t ts)
  have "pBuf (copy_mcu t a) i = pBuf a i"
    using Cons.prems by (auto simp: copy_mcu_def memcpy_def)
  with Cons show ?case by simp
qed

text \<open>
  Index safety. For every tile sequence, each \<^verbatim>\<open>memcpy\<close> of the buffered decode
  ends at or before pixel 320 * 240 of the buffer, and the memory from that index on is
  left as it was. A tile for which the 16-bit \<^verbatim>\<open>mcuPixels\<close> added to the 16-bit
  \<^verbatim>\<open>bufIndex\<close> exceeds 320 * 240 changes nothing (neither the buffer nor the index);
  any other tile is copied as \<^verbatim>\<open>mcuPixels\<close> pixels starting at \<^verbatim>\<open>bufIndex\<close>.
  \<^verbatim>\<open>mcuPixels\<close> is the pixel count of the tile, its width times its height, as long
  as that fits 16 bits.
\<close>

lemma copies_within_capacity:
  "(\<forall>(off, n) \<in> set (copies (buffer_decode ts buf)). off + n \<le> 320 * 240)
   \<and> (\<forall>i. 320 * 240 \<le> i \<longrightarrow> pBuf (buffer_decode ts buf) i = buf i)
   \<and> (320 * 240 < unat (bufIndex a) + unat (mcuPixels t) \<longrightarrow> copy_mcu t a = a)
   \<and> (unat (bufIndex a) + unat (mcuPixels t) \<le> 320 * 240 \<longrightarrow>
        copies (copy_mcu t a) = copies a @ [(unat (bufIndex a), unat (mcuPixels t))]
        \<and> (\<forall>i. pBuf (copy_mcu t a) i =
              (if unat (bufIndex a) \<le> i \<and> i < unat (bufIndex a) + unat (mcuPixels t)
               then pImage t (i - unat (bufIndex a)) else pBuf a i)))
   \<and> (0 \<le> MCUWidth t * MCUHeight t \<and> MCUWidth t * MCUHeight t < 65536 \<longrightarrow>
        int (unat (mcuPixels t)) = MCUWidth t * MCUHeight t)"
proof (intro conjI impI allI)
  show "\<forall>(off, n) \<in> set (copies (buffer_decode ts buf)). off + n \<le> 320 * 240"
    unfolding buffer_decode_def by (rule copies_in_bounds) simp
next
  fix i :: nat
  assume "320 * 240 \<le> i"
  then show "pBuf (buffer_decode ts buf) i = buf i"
    by (simp add: buffer_decode_def beyond_capacity_untouched)
next
  assume "320 * 240 < unat (bufIndex a) + unat (mcuPixels t)"
  then show "copy_mcu t a = a" by (simp add: copy_mcu_def)
next
  assume "unat (bufIndex a) + unat (mcuPixels t) \<le> 320 * 240"
  then show "copies (copy_mcu t a) = copies a @ [(unat (bufIndex a), unat (mcuPixels t))]"
    by (simp add: copy_mcu_def)
next
  fix i
  assume "unat (bufIndex a) + unat (mcuPixels t) \<le> 320 * 240"
  then show "pBuf (copy_mcu t a) i =
              (if unat (bufIndex a) \<le> i \<and> i < unat (bufIndex a) + unat (mcuPixels t)
               then pImage t (i - unat (bufIndex a)) else pBuf a i)"
    by (simp add: copy_mcu_def memcpy_def)
next
  define k where "k = MCUWidth t * MCUHeight t"
  assume "0 \<le> MCUWidth t * MCUHeight t \<and> MCUWidth t * MCUHeight t < 65536"
  then have k: "0 \<le> k" "k < 65536"
    by (simp_all add: k_def)
  have "uint (word_of_int k :: 16 word) = k"
    using k by (simp add: uint_word_of_int)
  then show "int (unat (mcuPixels t)) = MCUWidth t * MCUHeight t"
    unfolding mcuPixels_def k_def [symmetric] by simp
qed

text \<open>
  Two tiles of 65535 pixels: the first is copied to the start of the buffer, the second
  would end beyond it and is dropped.
\<close>

lemma big_tile_pixels: "unat (mcuPixels big_tile) = 65535"
  by (simp add: mcuPixels_def big_tile_def)

lemma one_big_tile:
  "buffer_decode [big_tile] blank =
     \<lparr>pBuf = memcpy blank 0 (pImage big_tile) 65535, bufIndex = 65535, copies = [(0, 65535)]\<rparr>"
proof -
  have "mcuPixels big_tile = 65535"
    by (simp add: mcuPixels_def big_tile_def)
  then show ?thesis
    by (simp add: buffer_decode_def copy_mcu_def)
qed

lemma copies_within_capacity_example:
  "copies (buffer_decode [big_tile, big_tile] blank) = [(0, 65535)]
   \<and> 0 + 65535 \<le> (320 * 240 :: nat)
   \<and> copy_mcu big_tile (buffer_decode [big_tile] blank) = buffer_decode [big_tile] blank
   \<and> pBuf (buffer_decode [big_tile, big_tile] blank) (320 * 240) = blank (320 * 240)
   \<and> pBuf (buffer_decode [big_tile] blank) 65534 = 7"
proof -
  note w = copies_within_capacity [of "[big_tile, big_tile]" blank "buffer_decode [big_tile] blank" big_tile]
  have over: "320 * 240 < unat (bufIndex (buffer_decode [big_tile] blank)) + unat (mcuPixels big_tile)"
    by (simp add: one_big_tile big_tile_pixels)
  from w over have drop: "copy_mcu big_tile (buffer_decode [big_tile] blank) = buffer_decode [big_tile] blank"
    by blast
  have two: "buffer_decode [big_tile, big_tile] blank = copy_mcu big_tile (buffer_decode [big_tile] blank)"
    by (simp add: buffer_decode_def)
  have c: "copies (buffer_decode [big_tile, big_tile] blank) = [(0, 65535)]"
    unfolding two drop by (simp add: one_big_tile)
  from w have "320 * 240 \<le> (320 * 240 :: nat) \<longrightarrow>
      pBuf (buffer_decode [big_tile, big_tile] blank) (320 * 240) = blank (320 * 240)"
    by blast
  then have far: "pBuf (buffer_decode [big_tile, big_tile] blank) (320 * 240) = blank (320 * 240)"
    by simp
  have px: "pBuf (buffer_decode [big_tile] blank) 65534 = 7"
    unfolding one_big_tile by (simp add: memcpy_def big_tile_def)
  show ?thesis using c drop far px by simp
qed

lemma long_copies:
  "copies (buffer_decode (take n long_mcus) buf)
     = map (\<lambda>k. (unat (256 * of_nat k :: 16 word), 256)) [0..<min n 400]"
  "bufIndex (buffer_decode (take n long_mcus) buf) = 256 * of_nat (min n 400)"
proof -
  have "\<forall>t \<in> set (take n long_mcus). mcuPixels t = 256"
    by (auto simp: long_mcus_def mcuPixels_example dest!: in_set_takeD)
  from fold_copy_256 [OF this, of "\<lparr>pBuf = buf, bufIndex = 0, copies = []\<rparr>"]
  show "copies (buffer_decode (take n long_mcus) buf)
     = map (\<lambda>k. (unat (256 * of_nat k :: 16 word), 256)) [0..<min n 400]"
    "bufIndex (buffer_decode (take n long_mcus) buf) = 256 * of_nat (min n 400)"
    by (simp_all add: buffer_decode_def long_mcus_def min.commute)
qed

lemma long_take_301: "take 301 long_mcus = take 300 long_mcus @ [example_tile 300]"
proof -
  have "take (Suc 300) long_mcus = take 300 long_mcus @ [long_mcus ! 300]"
    by (rule take_Suc_conv_app_nth) (simp add: long_mcus_def)
  moreover have "long_mcus ! 300 = example_tile 300"
    by (simp add: long_mcus_def del: upt_Suc)
  ultimately show ?thesis by simp
qed

lemma tile_301_written: "pBuf (buffer_decode (take 301 long_mcus) blank) 11264 = 300"
proof -
  have step: "buffer_decode (take 301 long_mcus) blank
      = copy_mcu (example_tile 300) (buffer_decode (take 300 long_mcus) blank)"
    by (simp add: long_take_301 buffer_decode_def)
  have idx: "unat (bufIndex (buffer_decode (take 300 long_mcus) blank)) = 11264"
    by (simp add: long_copies)
  show ?thesis
    unfolding step copy_mcu_256 [OF mcuPixels_example]
    by (simp add: idx memcpy_def example_tile_def)
qed

text \<open>
  C3. A stream of 400 tiles of 16 by 16 pixels: the first 300 tiles hold 320 * 240
  pixels, the capacity of the buffer, yet none of the 100 tiles after them is dropped.
  All 400 are copied, the 301st to index 11264, where its pixels are found afterwards,
  since the guard adds the tile's pixel count to the wrapped 16-bit \<^verbatim>\<open>bufIndex\<close> and not
  to the number of pixels already copied. A tile of 277 by 278 pixels, more than the
  buffer holds, is not dropped either: its first 11470 pixels are copied, \<^verbatim>\<open>mcuPixels\<close>
  being its pixel count reduced to 16 bits.
\<close>

theorem overflowing_tiles_not_dropped:
  "length long_mcus = 400
   \<and> sum_list (map (\<lambda>t. nat (MCUWidth t * MCUHeight t)) (take 300 long_mcus)) = 320 * 240
   \<and> length (copies (buffer_decode long_mcus blank)) = 400
   \<and> copies (buffer_decode long_mcus blank) ! 300 = (11264, 256)
   \<and> pBuf (buffer_decode (take 301 long_mcus) blank) 11264 = 300
   \<and> nat (MCUWidth wide_tile * MCUHeight wide_tile) = 77006
   \<and> copies (buffer_decode [wide_tile] blank) = [(0, 11470)]"
proof -
  have px: "(\<lambda>t. nat (MCUWidth t * MCUHeight t)) \<circ> example_tile = (\<lambda>_. 256)"
    by (auto simp: example_tile_def)
  have s: "sum_list (map (\<lambda>t. nat (MCUWidth t * MCUHeight t)) (take 300 long_mcus)) = 320 * 240"
    by (simp add: long_mcus_def take_map px sum_list_triv del: upt_Suc)
  have all: "take 400 long_mcus = long_mcus"
    by (simp add: long_mcus_def)
  note c = long_copies(1) [of 400 blank, unfolded all]
  have n: "length (copies (buffer_decode long_mcus blank)) = 400"
    by (simp add: c)
  have at: "copies (buffer_decode long_mcus blank) ! 300 = (11264, 256)"
    by (simp add: c del: upt_Suc)
  have wp: "mcuPixels wide_tile = 11470"
    by (simp add: mcuPixels_def wide_tile_def)
  have w: "copies (buffer_decode [wide_tile] blank) = [(0, 11470)]"
    by (simp add: buffer_decode_def copy_mcu_def wp)
  have wn: "nat (MCUWidth wide_tile * MCUHeight wide_tile) = 77006"
    by (simp add: wide_tile_def)
  show ?thesis
    using s n at tile_301_written w wn by (simp add: long_mcus_def)
qed

subsection \<open>Centring\<close>

lemma centre_floor:
  assumes "0 \<le> w" "w \<le> sint d"
  shows "uint (word_of_int w :: 16 word) = w"
    and "sint (centre d (word_of_int w)) = (sint d - w) div 2"
proof -
  have d: "sint d < 2 ^ 15"
    using sint_lt [of d] by simp
  show u: "uint (word_of_int w :: 16 word) = w"
    using assms d by (simp add: uint_word_of_int)
  have q: "(sint d - w) sdiv 2 = (sint d - w) div 2"
    using assms by (simp add: signed_divide_int_def sgn_if)
  have r: "0 \<le> (sint d - w) div 2" "(sint d - w) div 2 < 2 ^ 15"
    using assms d by simp_all
  have "sint (word_of_int ((sint d - w) div 2) :: 16 word) = (sint d - w) div 2"
    using r by (simp add: sint_sbintrunc' signed_take_bit_int_eq_self)
  then show "sint (centre d (word_of_int w)) = (sint d - w) div 2"
    by (simp add: centre_def u q)
qed

text \<open>
  C9. A decoded frame whose width and height are not negative and do not exceed those of
  the display is presented with its top-left corner at
  \<open>((W - w) div 2, (H - h) div 2)\<close>, \<open>div\<close> rounding down. With the display buffer, the
  one \<^verbatim>\<open>pushImage\<close> of the frame is at that position with the frame's dimensions;
  without it, every tile is pushed at that position plus its grid coordinates scaled by
  the tile dimensions.
\<close>

theorem frame_centred:
  assumes "0 \<le> JpegDec_width j" "JpegDec_width j \<le> sint (tft_width e)"
    and "0 \<le> JpegDec_height j" "JpegDec_height j \<le> sint (tft_height e)"
  shows "trace (present e j s) = trace s @
    (if bufferReady s
     then [Tft (PushImage ((sint (tft_width e) - JpegDec_width j) div 2)
                          ((sint (tft_height e) - JpegDec_height j) div 2)
                          (JpegDec_width j) (JpegDec_height j)
                          (displayBuffer (present e j s)))]
     else map (\<lambda>t. Tft (PushImage
                 (MCUx t * MCUWidth t + (sint (tft_width e) - JpegDec_width j) div 2)
                 (MCUy t * MCUHeight t + (sint (tft_height e) - JpegDec_height j) div 2)
                 (MCUWidth t) (MCUHeight t) (pImage t))) (mcus j))"
  by (simp add: present_def Let_def emit_def emits_def push_tile_def
      centre_floor [OF assms(1,2)] centre_floor [OF assms(3,4)])

text \<open>
  A 32 by 16 frame on the 240 by 320 display lands at (104, 152) on the buffered path,
  and its two tiles at (104, 152) and (120, 152) on the per-tile path.
\<close>

theorem frame_centred_witness:
  "trace (present example_loop (the (decodeArray example_loop)) (after_setup\<lparr>trace := []\<rparr>))
     = [Tft (PushImage 104 152 32 16
          (displayBuffer (present example_loop (the (decodeArray example_loop)) (after_setup\<lparr>trace := []\<rparr>))))]
   \<and> map (\<lambda>ev. case ev of Tft (PushImage x y w h p) \<Rightarrow> (x, y, w, h) | _ \<Rightarrow> (0, 0, 0, 0))
        (trace (present example_loop (the (decodeArray example_loop))
           (after_setup\<lparr>trace := [], bufferReady := False\<rparr>)))
     = [(104, 152, 16, 16), (120, 152, 16, 16)]"
proof -
  let ?j = "the (decodeArray example_loop)"
  have j: "JpegDec_width ?j = 32" "JpegDec_height ?j = 16" "mcus ?j = map example_tile [0, 1]"
    by (simp_all add: example_loop_def)
  have e: "sint (tft_width example_loop) = 240" "sint (tft_height example_loop) = 320"
    by (simp_all add: example_loop_def)
  have h: "0 \<le> JpegDec_width ?j" "JpegDec_width ?j \<le> sint (tft_width example_loop)"
    "0 \<le> JpegDec_height ?j" "JpegDec_height ?j \<le> sint (tft_height example_loop)"
    unfolding j e by simp_all
  have b: "bufferReady (after_setup\<lparr>trace := []\<rparr>)"
    by (simp add: after_setup_fields)
  note w1 = frame_centred [OF h, of "after_setup\<lparr>trace := []\<rparr>", unfolded j e]
  note w2 = frame_centred [OF h, of "after_setup\<lparr>trace := [], bufferReady := False\<rparr>", unfolded j e]
  show ?thesis
    using b by (simp add: w1 w2 example_tile_def)
qed

end
